theory Spec2Isabelle
  imports Main
begin

section \<open>Discord member sync bot: the embedding of main.py\<close>

text \<open>
  The program keeps three pieces of outside state: the worksheet (a list of rows of cell
  strings), the JSON log file, and the console. Every function of the source that touches
  them is modelled as a function from the state before to the outcome and the state after.
\<close>

subsection \<open>Python values used by the program\<close>

text \<open>\<^verbatim>\<open>str(n)\<close> of a Python int: the decimal digits, with a minus sign when negative.\<close>

definition digit_char :: "nat \<Rightarrow> char" where
  "digit_char d = ''0123456789'' ! d"

function str_nat :: "nat \<Rightarrow> string" where
  "str_nat n = (if n < 10 then [digit_char n] else str_nat (n div 10) @ [digit_char (n mod 10)])"
  by pat_completeness auto
termination
  by (relation "measure id") auto

declare str_nat.simps [simp del]

definition str_int :: "int \<Rightarrow> string" where
  "str_int i = (if i < 0 then CHR ''-'' # str_nat (nat (- i)) else str_nat (nat i))"

text \<open>
  \<^verbatim>\<open>datetime.utcnow()\<close> yields a naive datetime; only the fields that the format
  \<^verbatim>\<open>"%Y-%m-%d %H:%M:%S"\<close> prints are kept.
\<close>

record datetime =
  year :: nat
  month :: nat
  day :: nat
  hour :: nat
  minute :: nat
  second :: nat

text \<open>The ranges Python's datetime type guarantees for its fields.\<close>

definition valid_datetime :: "datetime \<Rightarrow> bool" where
  "valid_datetime d \<longleftrightarrow>
     1 \<le> year d \<and> year d \<le> 9999 \<and> 1 \<le> month d \<and> month d \<le> 12 \<and>
     1 \<le> day d \<and> day d \<le> 31 \<and> hour d < 24 \<and> minute d < 60 \<and> second d < 60"

text \<open>\<^verbatim>\<open>%m %d %H %M %S\<close>: two digits, zero padded.\<close>

definition pad2 :: "nat \<Rightarrow> string" where
  "pad2 n = (if n < 10 then CHR ''0'' # str_nat n else str_nat n)"

text \<open>
  \<^verbatim>\<open>strftime("%Y-%m-%d %H:%M:%S")\<close>. \<^verbatim>\<open>%Y\<close> is the year in decimal, which the C
  library of the deployment platform does not pad.
\<close>

definition strftime :: "datetime \<Rightarrow> string" where
  "strftime d =
     str_nat (year d) @ ''-'' @ pad2 (month d) @ ''-'' @ pad2 (day d) @ '' '' @
     pad2 (hour d) @ '':'' @ pad2 (minute d) @ '':'' @ pad2 (second d)"

text \<open>What \<^verbatim>\<open>json.load\<close> can return and \<^verbatim>\<open>json.dump\<close> can write.\<close>

datatype json =
    JNull
  | JBool bool
  | JInt int
  | JFloat string
  | JStr string
  | JList "json list"
  | JObj "(string \<times> json) list"

text \<open>The Python type name of a decoded JSON value, as it shows in an AttributeError.\<close>

fun py_type_name :: "json \<Rightarrow> string" where
  "py_type_name JNull = ''NoneType''"
| "py_type_name (JBool b) = ''bool''"
| "py_type_name (JInt i) = ''int''"
| "py_type_name (JFloat f) = ''float''"
| "py_type_name (JStr s) = ''str''"
| "py_type_name (JList xs) = ''list''"
| "py_type_name (JObj kvs) = ''dict''"

subsection \<open>Exceptions, outcomes and the outside world\<close>

text \<open>
  The exceptions the program can meet: \<open>OSError\<close> from \<^verbatim>\<open>open\<close> or a write (with the
  operating system's message), \<open>JSONDecodeError\<close> from \<^verbatim>\<open>json.load\<close>,
  \<open>AttributeError\<close> from \<^verbatim>\<open>data.insert\<close> on a value of the named type that is not a
  list, and \<open>APIError\<close> from a call to the spreadsheet service.
\<close>

datatype exc =
    OSError string
  | JSONDecodeError
  | AttributeError string
  | APIError string

datatype outcome = Returned | Raised exc

text \<open>
  A console line is either a text whose bytes the program fixes (UTF-8), or the line
  \<^verbatim>\<open>f"[log] failed: {exc}"\<close>, whose text after the prefix is the library's wording of
  the exception.
\<close>

datatype console_line = Line string | LogFailed exc

definition en_dash :: string where
  "en_dash = [CHR 0xE2, CHR 0x80, CHR 0x93]"

record member =
  display_name :: string
  name :: string
  member_id :: int
  display_avatar_url :: string

record guild =
  guild_name :: string
  guild_id :: int
  members :: "member list"

text \<open>
  The file at \<^verbatim>\<open>LOG_FILE\<close>: absent, present with bytes that \<^verbatim>\<open>json.load\<close> rejects,
  or present with the text of a JSON value.
\<close>

datatype file_state = NoFile | Garbage string | Holds json

text \<open>
  How opening the log file for writing goes: it works; \<^verbatim>\<open>open(LOG_FILE, "w")\<close> raises
  and the file is untouched; or the file is truncated and \<^verbatim>\<open>json.dump\<close> raises after
  the given bytes reached it.
\<close>

datatype write_fault = WriteOk | OpenFails exc | DumpFails exc string

text \<open>
  The world the bot runs in.
  \<^item> \<open>guilds\<close>: the bot's guild cache, by guild ID;
  \<^item> \<open>sheet_rows\<close>: the worksheet, one list of cell strings per row;
  \<^item> \<open>sheet_faults\<close>: the fate of the coming calls to the spreadsheet service, the next
    call first: \<open>None\<close> for a call that works, \<open>Some e\<close> for one that raises \<open>e\<close> and
    changes nothing; past the end of the list every call works;
  \<^item> \<open>log_file\<close>, \<open>read_fault\<close> (opening the file for reading raises), \<open>write_fault\<close>;
  \<^item> \<open>clock\<close> and \<open>tick\<close>: the \<open>n\<close>-th reading of the UTC clock is \<open>clock n\<close>;
  \<^item> \<open>slept\<close>: the seconds spent in \<^verbatim>\<open>asyncio.sleep\<close>;
  \<^item> \<open>console\<close>: the lines printed so far.
\<close>

record world =
  guilds :: "int \<Rightarrow> guild option"
  sheet_rows :: "string list list"
  sheet_faults :: "exc option list"
  log_file :: file_state
  read_fault :: "exc option"
  write_fault :: write_fault
  clock :: "nat \<Rightarrow> datetime"
  tick :: nat
  slept :: nat
  console :: "console_line list"

definition print :: "console_line \<Rightarrow> world \<Rightarrow> world" where
  "print l w = w\<lparr>console := console w @ [l]\<rparr>"

definition utcnow :: "world \<Rightarrow> datetime \<times> world" where
  "utcnow w = (clock w (tick w), w\<lparr>tick := Suc (tick w)\<rparr>)"

definition sleep :: "nat \<Rightarrow> world \<Rightarrow> world" where
  "sleep n w = w\<lparr>slept := slept w + n\<rparr>"

subsection \<open>The spreadsheet service\<close>

definition sheet_call :: "world \<Rightarrow> exc option \<times> world" where
  "sheet_call w =
     (case sheet_faults w of
        [] \<Rightarrow> (None, w)
      | f # fs \<Rightarrow> (f, w\<lparr>sheet_faults := fs\<rparr>))"

text \<open>The cell of a row in column \<open>n\<close>, counted from 1; a row that is too short has an empty cell there.\<close>

definition cell :: "nat \<Rightarrow> string list \<Rightarrow> string" where
  "cell n row = (if 1 \<le> n \<and> n \<le> length row then row ! (n - 1) else [])"

text \<open>
  \<^verbatim>\<open>sheet.col_values(n)\<close>: the cells of column \<open>n\<close> from the first row down to the last
  row whose cell is not empty.
\<close>

definition column :: "nat \<Rightarrow> string list list \<Rightarrow> string list" where
  "column n rows = rev (dropWhile (\<lambda>c. c = []) (rev (map (cell n) rows)))"

definition col_values :: "nat \<Rightarrow> world \<Rightarrow> (exc + string list) \<times> world" where
  "col_values n w =
     (case sheet_call w of
        (Some e, w') \<Rightarrow> (Inl e, w')
      | (None, w') \<Rightarrow> (Inr (column n (sheet_rows w')), w'))"

text \<open>\<^verbatim>\<open>sheet.append_row(values)\<close>: a new row after the last one.\<close>

definition append_row :: "string list \<Rightarrow> world \<Rightarrow> exc option \<times> world" where
  "append_row row w =
     (case sheet_call w of
        (Some e, w') \<Rightarrow> (Some e, w')
      | (None, w') \<Rightarrow> (None, w'\<lparr>sheet_rows := sheet_rows w' @ [row]\<rparr>))"

subsection \<open>write_log\<close>

definition log_entry :: "string \<Rightarrow> string \<Rightarrow> int \<Rightarrow> json" where
  "log_entry timestamp status member_count =
     JObj [(''timestamp'', JStr timestamp), (''status'', JStr status),
           (''member_count'', JInt member_count)]"

text \<open>
  \<^verbatim>\<open>data = []\<close>, replaced by \<^verbatim>\<open>json.load(fp)\<close> when \<^verbatim>\<open>os.path.exists(LOG_FILE)\<close>.
\<close>

definition read_log :: "world \<Rightarrow> exc + json" where
  "read_log w =
     (case log_file w of
        NoFile \<Rightarrow> Inr (JList [])
      | Garbage s \<Rightarrow> (case read_fault w of Some e \<Rightarrow> Inl e | None \<Rightarrow> Inl JSONDecodeError)
      | Holds v \<Rightarrow> (case read_fault w of Some e \<Rightarrow> Inl e | None \<Rightarrow> Inr v))"

text \<open>\<^verbatim>\<open>data.insert(0, entry)\<close>: only a list has the method.\<close>

definition insert0 :: "json \<Rightarrow> json \<Rightarrow> exc + json list" where
  "insert0 entry data =
     (case data of
        JList xs \<Rightarrow> Inr (entry # xs)
      | _ \<Rightarrow> Inl (AttributeError (py_type_name data)))"

text \<open>\<^verbatim>\<open>with open(LOG_FILE, "w") as fp: json.dump(..., fp)\<close>: the file is rewritten whole.\<close>

definition dump_log :: "json list \<Rightarrow> world \<Rightarrow> exc option \<times> world" where
  "dump_log data w =
     (case write_fault w of
        WriteOk \<Rightarrow> (None, w\<lparr>log_file := Holds (JList data)\<rparr>)
      | OpenFails e \<Rightarrow> (Some e, w)
      | DumpFails e partial \<Rightarrow> (Some e, w\<lparr>log_file := Garbage partial\<rparr>))"

text \<open>The body of the \<^verbatim>\<open>try\<close>: the exception it ends with, if any, and the world it leaves.\<close>

definition write_log_try :: "json \<Rightarrow> world \<Rightarrow> exc option \<times> world" where
  "write_log_try entry w =
     (case read_log w of
        Inl e \<Rightarrow> (Some e, w)
      | Inr data \<Rightarrow>
          (case insert0 entry data of
             Inl e \<Rightarrow> (Some e, w)
           | Inr data' \<Rightarrow> dump_log (take 100 data') w))"

text \<open>
  \<^verbatim>\<open>except Exception\<close> catches the instances of \<^verbatim>\<open>Exception\<close>: OSError,
  JSONDecodeError (a ValueError), AttributeError and the spreadsheet client's errors all are.
\<close>

fun is_Exception :: "exc \<Rightarrow> bool" where
  "is_Exception (OSError msg) = True"
| "is_Exception JSONDecodeError = True"
| "is_Exception (AttributeError ty) = True"
| "is_Exception (APIError msg) = True"

text \<open>
  The entry is built before the \<^verbatim>\<open>try\<close>; the handler
  \<^verbatim>\<open>except Exception as exc: print(f"[log] failed: {exc}")\<close> catches what the body raises.
\<close>

definition write_log :: "string \<Rightarrow> int \<Rightarrow> world \<Rightarrow> outcome \<times> world" where
  "write_log status member_count w =
     (case utcnow w of
        (now, w1) \<Rightarrow>
          (case write_log_try (log_entry (strftime now) status member_count) w1 of
             (None, w2) \<Rightarrow> (Returned, w2)
           | (Some e, w2) \<Rightarrow>
               if is_Exception e then (Returned, print (LogFailed e) w2) else (Raised e, w2)))"

subsection \<open>sync_members\<close>

text \<open>
  The \<^verbatim>\<open>for member in guild.members\<close> loop, with the loop's variables
  \<open>existing_ids\<close> and \<open>added\<close>. It runs over the roster as it is when the loop starts.
  An exception of \<^verbatim>\<open>append_row\<close> ends it. A run is taken on its own: nothing else
  touches the world while it waits in \<^verbatim>\<open>asyncio.sleep\<close>.
\<close>

fun sync_loop :: "member list \<Rightarrow> string set \<Rightarrow> nat \<Rightarrow> world \<Rightarrow> (exc + nat) \<times> world" where
  "sync_loop [] existing_ids added w = (Inr added, w)"
| "sync_loop (m # ms) existing_ids added w =
     (let uid = str_int (member_id m) in
      if uid \<in> existing_ids then sync_loop ms existing_ids added w
      else
        (case utcnow w of
           (now, w1) \<Rightarrow>
             (case append_row [display_name m, name m, uid, display_avatar_url m, strftime now] w1 of
                (Some e, w2) \<Rightarrow> (Inl e, w2)
              | (None, w2) \<Rightarrow>
                  sync_loop ms (insert uid existing_ids) (added + 1) (sleep 1 w2))))"

text \<open>The three console lines of \<^verbatim>\<open>sync_members\<close>, as UTF-8 bytes.\<close>

definition msg_guild_not_found :: console_line where
  "msg_guild_not_found = Line (''[sync] Guild not found '' @ en_dash @ '' check DISCORD_GUILD_ID'')"

definition msg_fetching :: "guild \<Rightarrow> console_line" where
  "msg_fetching g =
     Line (''[sync] fetching members from '' @ guild_name g @ '' (ID: '' @ str_int (guild_id g) @ '')'')"

definition msg_complete :: "nat \<Rightarrow> console_line" where
  "msg_complete added = Line (''[sync] complete '' @ en_dash @ '' '' @ str_nat added @ '' new rows'')"

definition sync_members :: "int \<Rightarrow> world \<Rightarrow> outcome \<times> world" where
  "sync_members GUILD_ID w =
     (case guilds w GUILD_ID of
        None \<Rightarrow> (Returned, print msg_guild_not_found w)
      | Some g \<Rightarrow>
          (case col_values 3 (print (msg_fetching g) w) of
             (Inl e, w2) \<Rightarrow> (Raised e, w2)
           | (Inr ids, w2) \<Rightarrow>
               (case sync_loop (members g) (set ids) 0 w2 of
                  (Inl e, w3) \<Rightarrow> (Raised e, w3)
                | (Inr added, w3) \<Rightarrow>
                    write_log ''sync'' (int added) (print (msg_complete added) w3))))"

subsection \<open>Notions the properties are stated with\<close>

text \<open>The identity string of a member, the loop's \<open>uid\<close>.\<close>

definition uid_of :: "member \<Rightarrow> string" where
  "uid_of m = str_int (member_id m)"

text \<open>The rows that the worksheet of \<open>w'\<close> has after those of \<open>w\<close>.\<close>

definition appended :: "world \<Rightarrow> world \<Rightarrow> string list list" where
  "appended w w' = drop (length (sheet_rows w)) (sheet_rows w')"





text \<open>
  The shape \<^verbatim>\<open>YYYY-MM-DD HH:MM:SS\<close>: in the pattern, \<open>d\<close> stands for a decimal digit and
  every other character for itself.
\<close>

definition is_digit :: "char \<Rightarrow> bool" where
  "is_digit c \<longleftrightarrow> c \<in> set ''0123456789''"

fun matches_format :: "string \<Rightarrow> string \<Rightarrow> bool" where
  "matches_format [] [] = True"
| "matches_format (p # ps) (c # cs) =
     ((if p = CHR ''d'' then is_digit c else c = p) \<and> matches_format ps cs)"
| "matches_format ps cs = False"

definition timestamp_format :: "string \<Rightarrow> bool" where
  "timestamp_format s = matches_format ''dddd-dd-dd dd:dd:dd'' s"

text \<open>The row the loop builds for member \<open>m\<close> when the clock is read in world \<open>w\<close>.\<close>

definition new_row :: "member \<Rightarrow> world \<Rightarrow> string list" where
  "new_row m w = [display_name m, name m, uid_of m, display_avatar_url m, strftime (clock w (tick w))]"

text \<open>One pass of the loop body for a member that is not yet known: read the clock, append the row.\<close>

definition attempt :: "member \<Rightarrow> world \<Rightarrow> exc option \<times> world" where
  "attempt m w = append_row (new_row m w) (snd (utcnow w))"

text \<open>
  What the loop guarantees about the rows \<open>new\<close> it appended, from the members \<open>ms\<close>, the
  identities \<open>ids\<close> known at its start and the counter \<open>a\<close>: identities of new rows are
  pairwise different, none was known, each is a member's; and when the loop ends normally
  the counter grew by the number of rows and every member's identity is known or new.
\<close>

definition loop_post :: "member list \<Rightarrow> string set \<Rightarrow> nat \<Rightarrow> (exc + nat) \<Rightarrow> string list list \<Rightarrow> bool" where
  "loop_post ms ids a res new \<longleftrightarrow>
     distinct (map (cell 3) new) \<and> cell 3 ` set new \<inter> ids = {} \<and>
     cell 3 ` set new \<subseteq> uid_of ` set ms \<and>
     (\<forall>k. res = Inr k \<longrightarrow> k = a + length new \<and> uid_of ` set ms \<subseteq> ids \<union> cell 3 ` set new)"


subsection \<open>Example inputs\<close>

definition alice :: member where
  "alice = \<lparr>display_name = ''Alice'', name = ''alice'', member_id = 1,
            display_avatar_url = ''a1.png''\<rparr>"

definition bob :: member where
  "bob = \<lparr>display_name = ''Bob'', name = ''bob'', member_id = 2,
          display_avatar_url = ''a2.png''\<rparr>"

definition carol :: member where
  "carol = \<lparr>display_name = ''Carol'', name = ''carol'', member_id = 3,
            display_avatar_url = ''a3.png''\<rparr>"

definition example_clock :: "nat \<Rightarrow> datetime" where
  "example_clock n = \<lparr>year = 2024, month = 3, day = 9, hour = 7, minute = 5, second = n mod 60\<rparr>"

text \<open>A world whose guild 42 has the given roster and whose worksheet has the given rows.\<close>

definition example_world :: "member list \<Rightarrow> string list list \<Rightarrow> world" where
  "example_world roster rows =
     \<lparr>guilds = (\<lambda>i. if i = 42 then Some \<lparr>guild_name = ''Guild'', guild_id = 42, members = roster\<rparr>
                     else None),
      sheet_rows = rows, sheet_faults = [], log_file = NoFile, read_fault = None,
      write_fault = WriteOk, clock = example_clock, tick = 0, slept = 0, console = []\<rparr>"

definition alice_row :: "string list" where
  "alice_row = [''Alice'', ''alice'', ''1'', ''a1.png'', ''2024-03-08 10:00:00'']"

section \<open>Basic facts\<close>

subsection \<open>Identity strings and the identity column\<close>

lemma str_nat_nonempty: "str_nat n \<noteq> []"
  by (subst str_nat.simps) simp

lemma str_int_nonempty: "str_int i \<noteq> []"
  by (simp add: str_int_def str_nat_nonempty)

lemma in_dropWhile: "x \<in> set xs \<Longrightarrow> \<not> P x \<Longrightarrow> x \<in> set (dropWhile P xs)"
  by (induction xs) auto

lemma in_column: "s \<noteq> [] \<Longrightarrow> s \<in> set (column n rows) \<longleftrightarrow> s \<in> cell n ` set rows"
  unfolding column_def using in_dropWhile[of s "rev (map (cell n) rows)" "\<lambda>c. c = []"] set_dropWhileD[of s "\<lambda>c. c = []" "rev (map (cell n) rows)"]
  by auto

lemma str_int_examples:
  "str_int 0 = ''0''" "str_int 7 = ''7''" "str_int 1234567890 = ''1234567890''" "str_int (- 45) = ''-45''"
  by (simp_all add: str_int_def digit_char_def str_nat.simps)

lemma strftime_example:
  "strftime \<lparr>year = 2024, month = 3, day = 9, hour = 0, minute = 59, second = 7\<rparr> = ''2024-03-09 00:59:07''"
  by (simp add: strftime_def pad2_def digit_char_def str_nat.simps)

subsection \<open>The steps of the loop\<close>

lemma loop_post_Nil: "loop_post [] ids a (Inr a) []"
  by (simp add: loop_post_def)

lemma loop_post_fail: "loop_post ms ids a (Inl e) []"
  by (simp add: loop_post_def)

lemma loop_post_skip: "uid_of m \<in> ids \<Longrightarrow> loop_post ms ids a res new \<Longrightarrow> loop_post (m # ms) ids a res new"
  unfolding loop_post_def by auto

lemma loop_post_add:
  assumes "uid_of m \<notin> ids" "cell 3 row = uid_of m"
    and "loop_post ms (insert (uid_of m) ids) (a + 1) res new"
  shows "loop_post (m # ms) ids a res (row # new)"
  using assms unfolding loop_post_def by auto

lemma sync_loop_step_skip:
  "uid_of m \<in> ids \<Longrightarrow> sync_loop (m # ms) ids a w = sync_loop ms ids a w"
  by (simp add: uid_of_def)

lemma utcnow_simps:
  "fst (utcnow w) = clock w (tick w)"
  "sheet_rows (snd (utcnow w)) = sheet_rows w"
  "sheet_faults (snd (utcnow w)) = sheet_faults w"
  "guilds (snd (utcnow w)) = guilds w"
  "log_file (snd (utcnow w)) = log_file w"
  "read_fault (snd (utcnow w)) = read_fault w"
  "write_fault (snd (utcnow w)) = write_fault w"
  "clock (snd (utcnow w)) = clock w"
  "tick (snd (utcnow w)) = Suc (tick w)"
  "slept (snd (utcnow w)) = slept w"
  "console (snd (utcnow w)) = console w"
  by (simp_all add: utcnow_def)

lemma sleep_simps:
  "sheet_rows (sleep n w) = sheet_rows w"
  "sheet_faults (sleep n w) = sheet_faults w"
  "guilds (sleep n w) = guilds w"
  "log_file (sleep n w) = log_file w"
  "read_fault (sleep n w) = read_fault w"
  "write_fault (sleep n w) = write_fault w"
  "clock (sleep n w) = clock w"
  "tick (sleep n w) = tick w"
  "slept (sleep n w) = slept w + n"
  "console (sleep n w) = console w"
  by (simp_all add: sleep_def)

lemma print_simps:
  "sheet_rows (print l w) = sheet_rows w"
  "sheet_faults (print l w) = sheet_faults w"
  "guilds (print l w) = guilds w"
  "log_file (print l w) = log_file w"
  "read_fault (print l w) = read_fault w"
  "write_fault (print l w) = write_fault w"
  "clock (print l w) = clock w"
  "tick (print l w) = tick w"
  "slept (print l w) = slept w"
  "console (print l w) = console w @ [l]"
  by (simp_all add: print_def)

lemma sheet_call_simps:
  "sheet_rows (snd (sheet_call w)) = sheet_rows w"
  "sheet_faults (snd (sheet_call w)) = tl (sheet_faults w)"
  "guilds (snd (sheet_call w)) = guilds w"
  "log_file (snd (sheet_call w)) = log_file w"
  "read_fault (snd (sheet_call w)) = read_fault w"
  "write_fault (snd (sheet_call w)) = write_fault w"
  "clock (snd (sheet_call w)) = clock w"
  "tick (snd (sheet_call w)) = tick w"
  "slept (snd (sheet_call w)) = slept w"
  "console (snd (sheet_call w)) = console w"
  by (simp_all add: sheet_call_def split: list.splits)

lemma append_row_fst: "fst (append_row r w) = fst (sheet_call w)"
  by (simp add: append_row_def split: prod.splits option.splits)

lemma append_row_rows:
  "sheet_rows (snd (append_row r w)) =
     (if fst (sheet_call w) = None then sheet_rows w @ [r] else sheet_rows w)"
  using sheet_call_simps(1)[of w]
  by (auto simp add: append_row_def split: prod.splits option.splits)

lemma append_row_simps:
  "sheet_faults (snd (append_row r w)) = tl (sheet_faults w)"
  "guilds (snd (append_row r w)) = guilds w"
  "log_file (snd (append_row r w)) = log_file w"
  "read_fault (snd (append_row r w)) = read_fault w"
  "write_fault (snd (append_row r w)) = write_fault w"
  "clock (snd (append_row r w)) = clock w"
  "tick (snd (append_row r w)) = tick w"
  "slept (snd (append_row r w)) = slept w"
  "console (snd (append_row r w)) = console w"
  using sheet_call_simps[of w]
  by (auto simp add: append_row_def split: prod.splits option.splits)

lemma sync_loop_step_add:
  "uid_of m \<notin> ids \<Longrightarrow> fst (attempt m w) = None \<Longrightarrow>
   sync_loop (m # ms) ids a w =
     sync_loop ms (insert (uid_of m) ids) (a + 1) (sleep 1 (snd (attempt m w)))"
  by (auto simp add: attempt_def uid_of_def new_row_def utcnow_def Let_def split: prod.splits option.splits)

lemma sync_loop_step_fail:
  "uid_of m \<notin> ids \<Longrightarrow> fst (attempt m w) = Some e \<Longrightarrow>
   sync_loop (m # ms) ids a w = (Inl e, snd (attempt m w))"
  by (auto simp add: attempt_def uid_of_def new_row_def utcnow_def Let_def split: prod.splits option.splits)

lemma attempt_rows:
  "sheet_rows (snd (attempt m w)) =
     (if fst (attempt m w) = None then sheet_rows w @ [new_row m w] else sheet_rows w)"
  by (simp add: attempt_def append_row_rows append_row_fst utcnow_simps)

lemma attempt_simps:
  "sheet_faults (snd (attempt m w)) = tl (sheet_faults w)"
  "guilds (snd (attempt m w)) = guilds w"
  "log_file (snd (attempt m w)) = log_file w"
  "read_fault (snd (attempt m w)) = read_fault w"
  "write_fault (snd (attempt m w)) = write_fault w"
  "clock (snd (attempt m w)) = clock w"
  "tick (snd (attempt m w)) = Suc (tick w)"
  "slept (snd (attempt m w)) = slept w"
  "console (snd (attempt m w)) = console w"
  by (simp_all add: attempt_def append_row_simps utcnow_simps)

lemma sync_loop_rows:
  "sync_loop ms ids a w = (res, w') \<Longrightarrow>
     \<exists>new. sheet_rows w' = sheet_rows w @ new \<and> loop_post ms ids a res new"
proof (induction ms arbitrary: ids a w)
  case Nil
  then show ?case using loop_post_Nil by auto
next
  case (Cons m ms)
  show ?case
  proof (cases "uid_of m \<in> ids")
    case True
    from Cons.prems have "sync_loop ms ids a w = (res, w')"
      by (simp only: sync_loop_step_skip[OF True])
    from Cons.IH[OF this] obtain new where
      "sheet_rows w' = sheet_rows w @ new" "loop_post ms ids a res new" by blast
    then show ?thesis using loop_post_skip[OF True] by blast
  next
    case False
    show ?thesis
    proof (cases "fst (attempt m w)")
      case None
      let ?w2 = "sleep 1 (snd (attempt m w))"
      from Cons.prems have "sync_loop ms (insert (uid_of m) ids) (a + 1) ?w2 = (res, w')"
        by (simp only: sync_loop_step_add[OF False None])
      from Cons.IH[OF this] obtain new where
        new: "sheet_rows w' = sheet_rows ?w2 @ new" "loop_post ms (insert (uid_of m) ids) (a + 1) res new"
        by blast
      have c: "cell 3 (new_row m w) = uid_of m" by (simp add: cell_def new_row_def)
      have "sheet_rows w' = sheet_rows w @ (new_row m w # new)"
        using new(1) None by (simp add: sleep_simps attempt_rows)
      moreover have "loop_post (m # ms) ids a res (new_row m w # new)"
        by (rule loop_post_add[OF False c new(2)])
      ultimately show ?thesis by blast
    next
      case (Some e)
      from Cons.prems have "res = Inl e" "w' = snd (attempt m w)"
        by (simp_all only: sync_loop_step_fail[OF False Some] prod.inject)
      then have "sheet_rows w' = sheet_rows w @ []" "loop_post (m # ms) ids a res []"
        using Some by (simp_all add: attempt_rows loop_post_fail)
      then show ?thesis by blast
    qed
  qed
qed

subsection \<open>What the loop leaves untouched, and what it writes\<close>

lemma sync_loop_frame:
  "sync_loop ms ids a w = (res, w') \<Longrightarrow>
     guilds w' = guilds w \<and> log_file w' = log_file w \<and> read_fault w' = read_fault w \<and>
     write_fault w' = write_fault w \<and> clock w' = clock w \<and> console w' = console w"
proof (induction ms arbitrary: ids a w)
  case Nil
  then show ?case by auto
next
  case (Cons m ms)
  show ?case
  proof (cases "uid_of m \<in> ids")
    case True
    from Cons.prems have "sync_loop ms ids a w = (res, w')"
      by (simp only: sync_loop_step_skip[OF True])
    from Cons.IH[OF this] show ?thesis .
  next
    case False
    show ?thesis
    proof (cases "fst (attempt m w)")
      case None
      from Cons.prems have "sync_loop ms (insert (uid_of m) ids) (a + 1) (sleep 1 (snd (attempt m w))) = (res, w')"
        by (simp only: sync_loop_step_add[OF False None])
      from Cons.IH[OF this] show ?thesis by (simp add: sleep_simps attempt_simps)
    next
      case (Some e)
      from Cons.prems have "w' = snd (attempt m w)"
        by (simp_all only: sync_loop_step_fail[OF False Some] prod.inject)
      then show ?thesis by (simp add: attempt_simps)
    qed
  qed
qed

text \<open>The \<open>i\<close>-th row the loop appends carries the \<open>i\<close>-th reading of the clock.\<close>
lemma sync_loop_content:
  "sync_loop ms ids a w = (res, w') \<Longrightarrow> sheet_rows w' = sheet_rows w @ new \<Longrightarrow> i < length new \<Longrightarrow>
     \<exists>m\<in>set ms. new ! i = [display_name m, name m, uid_of m, display_avatar_url m,
                             strftime (clock w (tick w + i))]"
proof (induction ms arbitrary: ids a w new i)
  case Nil
  then show ?case by auto
next
  case (Cons m ms)
  show ?case
  proof (cases "uid_of m \<in> ids")
    case True
    from Cons.prems(1) have "sync_loop ms ids a w = (res, w')"
      by (simp only: sync_loop_step_skip[OF True])
    from Cons.IH[OF this Cons.prems(2,3)] show ?thesis by auto
  next
    case False
    show ?thesis
    proof (cases "fst (attempt m w)")
      case None
      let ?w2 = "sleep 1 (snd (attempt m w))"
      have run: "sync_loop ms (insert (uid_of m) ids) (a + 1) ?w2 = (res, w')"
        using Cons.prems(1) by (simp only: sync_loop_step_add[OF False None])
      from sync_loop_rows[OF run] obtain new2 where new2: "sheet_rows w' = sheet_rows ?w2 @ new2"
        by blast
      have rows2: "sheet_rows ?w2 = sheet_rows w @ [new_row m w]"
        using None by (simp add: sleep_simps attempt_rows)
      have new: "new = new_row m w # new2"
        using new2 Cons.prems(2) rows2 by simp
      show ?thesis
      proof (cases i)
        case 0
        then show ?thesis using new by (simp add: new_row_def)
      next
        case (Suc j)
        then have "j < length new2" using Cons.prems(3) new by simp
        from Cons.IH[OF run new2 this] obtain m' where "m' \<in> set ms"
          "new2 ! j = [display_name m', name m', uid_of m', display_avatar_url m',
                             strftime (clock ?w2 (tick ?w2 + j))]" by blast
        then show ?thesis using new Suc by (auto simp add: sleep_simps attempt_simps)
      qed
    next
      case (Some e)
      from Cons.prems have "w' = snd (attempt m w)"
        by (simp_all only: sync_loop_step_fail[OF False Some] prod.inject)
      then have "sheet_rows w' = sheet_rows w" using Some by (simp add: attempt_rows)
      then show ?thesis using Cons.prems(2,3) by simp
    qed
  qed
qed


subsection \<open>write_log\<close>

lemma write_log_try_frame:
  "sheet_rows (snd (write_log_try en w)) = sheet_rows w"
  "sheet_faults (snd (write_log_try en w)) = sheet_faults w"
  "guilds (snd (write_log_try en w)) = guilds w"
  "read_fault (snd (write_log_try en w)) = read_fault w"
  "write_fault (snd (write_log_try en w)) = write_fault w"
  "clock (snd (write_log_try en w)) = clock w"
  "tick (snd (write_log_try en w)) = tick w"
  "slept (snd (write_log_try en w)) = slept w"
  "console (snd (write_log_try en w)) = console w"
  by (simp_all add: write_log_try_def dump_log_def split: sum.splits write_fault.splits)

lemma is_Exception_all: "is_Exception e"
  by (cases e) simp_all

lemma write_log_unfold:
  "write_log status member_count w =
     (case write_log_try (log_entry (strftime (clock w (tick w))) status member_count) (snd (utcnow w)) of
        (None, w2) \<Rightarrow> (Returned, w2)
      | (Some e, w2) \<Rightarrow> (Returned, print (LogFailed e) w2))"
  by (simp add: write_log_def utcnow_def is_Exception_all split: prod.splits option.splits)

lemma write_log_Returned: "fst (write_log status member_count w) = Returned"
  by (simp add: write_log_unfold split: prod.splits option.splits)

lemma write_log_frame:
  "sheet_rows (snd (write_log status member_count w)) = sheet_rows w"
  "sheet_faults (snd (write_log status member_count w)) = sheet_faults w"
  "guilds (snd (write_log status member_count w)) = guilds w"
  "read_fault (snd (write_log status member_count w)) = read_fault w"
  "write_fault (snd (write_log status member_count w)) = write_fault w"
  "clock (snd (write_log status member_count w)) = clock w"
  "tick (snd (write_log status member_count w)) = Suc (tick w)"
  "slept (snd (write_log status member_count w)) = slept w"
  using write_log_try_frame[of "log_entry (strftime (clock w (tick w))) status member_count" "snd (utcnow w)"]
  by (auto simp add: write_log_unfold utcnow_simps print_simps split: prod.splits option.splits)









subsection \<open>Worlds with the same worksheet\<close>



lemma col_values_simps:
  "fst (col_values n w) =
     (case fst (sheet_call w) of Some e \<Rightarrow> Inl e | None \<Rightarrow> Inr (column n (sheet_rows w)))"
  "snd (col_values n w) = snd (sheet_call w)"
  using sheet_call_simps(1)[of w]
  by (auto simp add: col_values_def split: prod.splits option.splits)




text \<open>The run with a resolved guild, in stages.\<close>

lemma sync_members_unfold:
  assumes "guilds w gid = Some g"
  shows "sync_members gid w =
     (case fst (sheet_call (print (msg_fetching g) w)) of
           Some e \<Rightarrow> (Raised e, snd (sheet_call (print (msg_fetching g) w)))
         | None \<Rightarrow>
            (case sync_loop (members g) (set (column 3 (sheet_rows w))) 0
                    (snd (sheet_call (print (msg_fetching g) w))) of
               (Inl e, w3) \<Rightarrow> (Raised e, w3)
             | (Inr added, w3) \<Rightarrow>
                  write_log ''sync'' (int added) (print (msg_complete added) w3)))"
  using assms sheet_call_simps(1)[of "print (msg_fetching g) w"]
  by (auto simp add: sync_members_def col_values_def print_simps split: prod.splits option.splits)


subsection \<open>A run of sync_members\<close>

lemma uid_of_nonempty: "uid_of m \<noteq> []"
  by (simp add: uid_of_def str_int_nonempty)

lemma uid_in_column: "uid_of m \<in> set (column 3 rows) \<longleftrightarrow> uid_of m \<in> cell 3 ` set rows"
  by (rule in_column[OF uid_of_nonempty])

lemma count_one:
  "distinct (map f xs) \<Longrightarrow> y \<in> f ` set xs \<Longrightarrow> length (filter (\<lambda>x. f x = y) xs) = 1"
proof (induction xs)
  case Nil
  then show ?case by simp
next
  case (Cons x xs)
  show ?case
  proof (cases "f x = y")
    case True
    then have "y \<notin> f ` set xs" using Cons.prems(1) by auto
    then have "filter (\<lambda>x. f x = y) xs = []" by (auto simp add: filter_empty_conv)
    then show ?thesis using True by simp
  next
    case False
    then show ?thesis using Cons by auto
  qed
qed

lemma count_le_one:
  "distinct (map f xs) \<Longrightarrow> length (filter (\<lambda>x. f x = y) xs) \<le> 1"
proof (cases "y \<in> f ` set xs")
  case True
  assume "distinct (map f xs)"
  from count_one[OF this True] show ?thesis by simp
next
  case False
  then have "filter (\<lambda>x. f x = y) xs = []" by (auto simp add: filter_empty_conv)
  then show ?thesis by simp
qed

lemma appended_append: "sheet_rows w' = sheet_rows w @ new \<Longrightarrow> appended w w' = new"
  by (simp add: appended_def)

text \<open>
  The three ways a run with a resolved guild can go: the column read raises, an append
  raises, or the loop ends and the entry is logged.
\<close>

lemma sync_members_cases:
  assumes "guilds w gid = Some g" and "sync_members gid w = (out, w')"
  obtains
    (read_failed) e where "fst (sheet_call w) = Some e" "out = Raised e"
      "w' = snd (sheet_call (print (msg_fetching g) w))"
  | (append_failed) e where "fst (sheet_call w) = None" "out = Raised e"
      "sync_loop (members g) (set (column 3 (sheet_rows w))) 0
         (snd (sheet_call (print (msg_fetching g) w))) = (Inl e, w')"
  | (completed) k w3 where "fst (sheet_call w) = None" "out = Returned"
      "sync_loop (members g) (set (column 3 (sheet_rows w))) 0
         (snd (sheet_call (print (msg_fetching g) w))) = (Inr k, w3)"
      "w' = snd (write_log ''sync'' (int k) (print (msg_complete k) w3))"
proof -
  let ?w1 = "print (msg_fetching g) w"
  have sc: "fst (sheet_call ?w1) = fst (sheet_call w)"
    by (simp add: sheet_call_def print_simps split: list.splits)
  show thesis
  proof (cases "fst (sheet_call w)")
    case (Some e)
    with assms(2) sc have "out = Raised e" "w' = snd (sheet_call ?w1)"
      by (simp_all add: sync_members_unfold[OF assms(1)])
    with Some show thesis by (rule read_failed)
  next
    case None
    obtain r w3 where lp: "sync_loop (members g) (set (column 3 (sheet_rows w))) 0 (snd (sheet_call ?w1)) = (r, w3)"
      by (cases "sync_loop (members g) (set (column 3 (sheet_rows w))) 0 (snd (sheet_call ?w1))")
    show thesis
    proof (cases r)
      case (Inl e)
      with assms(2) sc None lp have "out = Raised e" "w3 = w'"
        by (simp_all add: sync_members_unfold[OF assms(1)])
      with None lp Inl show thesis by (auto intro: append_failed)
    next
      case (Inr k)
      with assms(2) sc None lp
      have "write_log ''sync'' (int k) (print (msg_complete k) w3) = (out, w')"
        by (simp add: sync_members_unfold[OF assms(1)])
      then have "out = Returned" "w' = snd (write_log ''sync'' (int k) (print (msg_complete k) w3))"
        using write_log_Returned[of "''sync''" "int k" "print (msg_complete k) w3"] by auto
      with None lp Inr show thesis by (auto intro: completed)
    qed
  qed
qed

text \<open>What every run does to the worksheet.\<close>

lemma sync_members_rows:
  assumes "guilds w gid = Some g" and "sync_members gid w = (out, w')"
  shows "sheet_rows w' = sheet_rows w @ appended w w'"
    and "distinct (map (cell 3) (appended w w'))"
    and "cell 3 ` set (appended w w') \<inter> cell 3 ` set (sheet_rows w) = {}"
    and "cell 3 ` set (appended w w') \<subseteq> uid_of ` set (members g)"
    and "out = Returned \<Longrightarrow> uid_of ` set (members g) \<subseteq> cell 3 ` set (sheet_rows w) \<union> cell 3 ` set (appended w w')"
proof -
  let ?w2 = "snd (sheet_call (print (msg_fetching g) w))"
  let ?ids = "set (column 3 (sheet_rows w))"
  have rows2: "sheet_rows ?w2 = sheet_rows w" by (simp add: sheet_call_simps print_simps)
  have "\<exists>new res. sheet_rows w' = sheet_rows w @ new \<and> loop_post (members g) ?ids 0 res new \<and>
          (out = Returned \<longrightarrow> (\<exists>k. res = Inr k))"
    using assms
  proof (cases rule: sync_members_cases)
    case (read_failed e)
    then have "sheet_rows w' = sheet_rows w @ []" by (simp add: rows2)
    moreover have "loop_post (members g) ?ids 0 (Inl e) []" by (rule loop_post_fail)
    ultimately show ?thesis using read_failed(2) by blast
  next
    case (append_failed e)
    from sync_loop_rows[OF append_failed(3)] append_failed(2) show ?thesis
      unfolding rows2 by blast
  next
    case (completed k w3)
    from sync_loop_rows[OF completed(3)] obtain new where
      "sheet_rows w3 = sheet_rows w @ new" "loop_post (members g) ?ids 0 (Inr k) new"
      unfolding rows2 by blast
    moreover have "sheet_rows w' = sheet_rows w3"
      by (simp add: completed(4) write_log_frame print_simps)
    ultimately show ?thesis by auto
  qed
  then obtain new res where new: "sheet_rows w' = sheet_rows w @ new"
    and post: "loop_post (members g) ?ids 0 res new" and ret: "out = Returned \<longrightarrow> (\<exists>k. res = Inr k)"
    by blast
  have app: "appended w w' = new" by (rule appended_append[OF new])
  have sub: "cell 3 ` set new \<subseteq> uid_of ` set (members g)"
    using post by (simp add: loop_post_def)
  show "sheet_rows w' = sheet_rows w @ appended w w'" using new app by simp
  show "distinct (map (cell 3) (appended w w'))" using post app by (simp add: loop_post_def)
  show "cell 3 ` set (appended w w') \<subseteq> uid_of ` set (members g)" using sub app by simp
  show "cell 3 ` set (appended w w') \<inter> cell 3 ` set (sheet_rows w) = {}"
  proof -
    have "cell 3 ` set new \<inter> ?ids = {}" using post by (simp add: loop_post_def)
    moreover have "u \<in> ?ids" if "u \<in> cell 3 ` set new" "u \<in> cell 3 ` set (sheet_rows w)" for u
    proof -
      from that(1) sub obtain m where "u = uid_of m" by auto
      with that(2) show ?thesis by (simp add: uid_in_column)
    qed
    ultimately show ?thesis unfolding app by blast
  qed
  show "uid_of ` set (members g) \<subseteq> cell 3 ` set (sheet_rows w) \<union> cell 3 ` set (appended w w')"
    if "out = Returned"
  proof -
    from that ret obtain k where "res = Inr k" by blast
    with post have "uid_of ` set (members g) \<subseteq> ?ids \<union> cell 3 ` set new"
      by (simp add: loop_post_def)
    moreover have "?ids \<subseteq> cell 3 ` set (sheet_rows w)"
      unfolding column_def using set_dropWhileD by fastforce
    ultimately show ?thesis unfolding app by blast
  qed
qed

lemma sync_members_guilds: "guilds (snd (sync_members gid w)) = guilds w"
proof (cases "guilds w gid")
  case None
  then show ?thesis by (simp add: sync_members_def print_simps)
next
  case (Some g)
  obtain out w' where run: "sync_members gid w = (out, w')" by (cases "sync_members gid w")
  from Some run have "guilds w' = guilds w"
  proof (cases rule: sync_members_cases)
    case (read_failed e)
    then show ?thesis by (simp add: sheet_call_simps print_simps)
  next
    case (append_failed e)
    from sync_loop_frame[OF append_failed(3)] show ?thesis
      by (simp add: sheet_call_simps print_simps)
  next
    case (completed k w3)
    from sync_loop_frame[OF completed(3)] show ?thesis
      by (simp add: completed(4) write_log_frame sheet_call_simps print_simps)
  qed
  then show ?thesis by (simp add: run)
qed



lemmas run_defs = sync_members_def col_values_def sheet_call_def print_def column_def cell_def
  utcnow_def append_row_def sleep_def write_log_def write_log_try_def read_log_def insert0_def
  dump_log_def str_int_def digit_char_def pad2_def strftime_def str_nat.simps Let_def

lemmas example_defs = example_world_def example_clock_def alice_def bob_def carol_def alice_row_def

lemma sync_members_rows_any:
  assumes "sync_members gid w = (out, w')"
  shows "sheet_rows w' = sheet_rows w @ appended w w'"
    and "distinct (map (cell 3) (appended w w'))"
    and "cell 3 ` set (appended w w') \<inter> cell 3 ` set (sheet_rows w) = {}"
proof -
  have "sheet_rows w' = sheet_rows w @ appended w w' \<and> distinct (map (cell 3) (appended w w')) \<and>
        cell 3 ` set (appended w w') \<inter> cell 3 ` set (sheet_rows w) = {}"
  proof (cases "guilds w gid")
    case None
    with assms have "sheet_rows w' = sheet_rows w"
      by (auto simp add: sync_members_def print_simps)
    then show ?thesis by (simp add: appended_def)
  next
    case (Some g)
    from sync_members_rows(1-3)[OF Some assms] show ?thesis by blast
  qed
  then show "sheet_rows w' = sheet_rows w @ appended w w'"
    and "distinct (map (cell 3) (appended w w'))"
    and "cell 3 ` set (appended w w') \<inter> cell 3 ` set (sheet_rows w) = {}"
    by blast+
qed

subsection \<open>The timestamp format\<close>

lemma is_digit_digit_char: "d < 10 \<Longrightarrow> is_digit (digit_char d)"
proof -
  assume "d < 10"
  then have "d = 0 \<or> d = 1 \<or> d = 2 \<or> d = 3 \<or> d = 4 \<or> d = 5 \<or> d = 6 \<or> d = 7 \<or> d = 8 \<or> d = 9"
    by arith
  then show ?thesis
    by (elim disjE) (simp_all add: digit_char_def is_digit_def)
qed

lemma str_nat_1: "n < 10 \<Longrightarrow> str_nat n = [digit_char n]"
  by (subst str_nat.simps) simp

lemma str_nat_2: "10 \<le> n \<Longrightarrow> n < 100 \<Longrightarrow> str_nat n = [digit_char (n div 10), digit_char (n mod 10)]"
  by (subst str_nat.simps) (simp add: str_nat_1)

lemma str_nat_step: "10 \<le> n \<Longrightarrow> str_nat n = str_nat (n div 10) @ [digit_char (n mod 10)]"
  by (subst str_nat.simps) simp

lemma str_nat_3:
  assumes "100 \<le> n" "n < 1000"
  shows "str_nat n = [digit_char (n div 10 div 10), digit_char (n div 10 mod 10), digit_char (n mod 10)]"
proof -
  have a: "10 \<le> n div 10" using assms(1) by presburger
  have b: "n div 10 < 100" using assms(2) by presburger
  have "10 \<le> n" using assms(1) by simp
  from str_nat_step[OF this] str_nat_2[OF a b] show ?thesis by simp
qed

lemma str_nat_4:
  assumes "1000 \<le> n" "n < 10000"
  shows "str_nat n = [digit_char (n div 10 div 10 div 10), digit_char (n div 10 div 10 mod 10),
                digit_char (n div 10 mod 10), digit_char (n mod 10)]"
proof -
  have a: "100 \<le> n div 10" using assms(1) by presburger
  have b: "n div 10 < 1000" using assms(2) by presburger
  have "10 \<le> n" using assms(1) by simp
  from str_nat_step[OF this] str_nat_3[OF a b] show ?thesis by simp
qed

lemma pad2_digits:
  assumes "n < 100"
  shows "\<exists>a b. pad2 n = [a, b] \<and> is_digit a \<and> is_digit b"
proof (cases "n < 10")
  case True
  then have "pad2 n = [CHR ''0'', digit_char n]" by (simp add: pad2_def str_nat_1)
  moreover have "is_digit CHR ''0''" by (simp add: is_digit_def)
  ultimately show ?thesis using is_digit_digit_char[OF True] by simp
next
  case False
  then have "pad2 n = [digit_char (n div 10), digit_char (n mod 10)]"
    using assms by (simp add: pad2_def str_nat_2)
  moreover have "n div 10 < 10" using assms by presburger
  then have "is_digit (digit_char (n div 10))" by (rule is_digit_digit_char)
  moreover have "is_digit (digit_char (n mod 10))" by (rule is_digit_digit_char) simp
  ultimately show ?thesis by simp
qed

lemma year_digits:
  assumes "1000 \<le> n" "n \<le> 9999"
  shows "\<exists>a b c d. str_nat n = [a, b, c, d] \<and> is_digit a \<and> is_digit b \<and> is_digit c \<and> is_digit d"
proof -
  have lt: "n < 10000" using assms(2) by simp
  have "n div 10 < 1000" using lt by (intro less_mult_imp_div_less) simp
  then have "n div 10 div 10 < 100" by (intro less_mult_imp_div_less) simp
  then have top: "n div 10 div 10 div 10 < 10" by (intro less_mult_imp_div_less) simp
  have "is_digit (digit_char (n div 10 div 10 div 10))" by (rule is_digit_digit_char[OF top])
  moreover have "is_digit (digit_char (n div 10 div 10 mod 10))" by (rule is_digit_digit_char) simp
  moreover have "is_digit (digit_char (n div 10 mod 10))" by (rule is_digit_digit_char) simp
  moreover have "is_digit (digit_char (n mod 10))" by (rule is_digit_digit_char) simp
  ultimately show ?thesis unfolding str_nat_4[OF assms(1) lt] by blast
qed

lemma strftime_format:
  assumes "valid_datetime d" and "1000 \<le> year d"
  shows "timestamp_format (strftime d)"
proof -
  have "year d \<le> 9999" using assms(1) by (simp add: valid_datetime_def)
  from year_digits[OF assms(2) this] obtain y1 y2 y3 y4 where y: "str_nat (year d) = [y1, y2, y3, y4]"
      "is_digit y1" "is_digit y2" "is_digit y3" "is_digit y4" by blast
  have "month d < 100" using assms(1) by (simp add: valid_datetime_def)
  from pad2_digits[OF this] obtain m1 m2 where m: "pad2 (month d) = [m1, m2]" "is_digit m1" "is_digit m2"
    by blast
  have "day d < 100" using assms(1) by (simp add: valid_datetime_def)
  from pad2_digits[OF this] obtain d1 d2 where dd: "pad2 (day d) = [d1, d2]" "is_digit d1" "is_digit d2"
    by blast
  have "hour d < 100" using assms(1) by (simp add: valid_datetime_def)
  from pad2_digits[OF this] obtain h1 h2 where h: "pad2 (hour d) = [h1, h2]" "is_digit h1" "is_digit h2"
    by blast
  have "minute d < 100" using assms(1) by (simp add: valid_datetime_def)
  from pad2_digits[OF this] obtain n1 n2 where n: "pad2 (minute d) = [n1, n2]" "is_digit n1" "is_digit n2"
    by blast
  have "second d < 100" using assms(1) by (simp add: valid_datetime_def)
  from pad2_digits[OF this] obtain s1 s2 where s: "pad2 (second d) = [s1, s2]" "is_digit s1" "is_digit s2"
    by blast
  have "strftime d = [y1, y2, y3, y4, CHR ''-'', m1, m2, CHR ''-'', d1, d2, CHR '' '',
                      h1, h2, CHR '':'', n1, n2, CHR '':'', s1, s2]"
    by (simp add: strftime_def y(1) m(1) dd(1) h(1) n(1) s(1))
  then show ?thesis
    using y(2-5) m(2,3) dd(2,3) h(2,3) n(2,3) s(2,3)
    by (simp add: timestamp_format_def)
qed

lemma sync_members_content:
  assumes "guilds w gid = Some g" and "sync_members gid w = (out, w')"
    and "i < length (appended w w')"
  shows "\<exists>m\<in>set (members g). appended w w' ! i =
           [display_name m, name m, uid_of m, display_avatar_url m, strftime (clock w (tick w + i))]"
proof -
  let ?w2 = "snd (sheet_call (print (msg_fetching g) w))"
  have w2: "sheet_rows ?w2 = sheet_rows w" "clock ?w2 = clock w" "tick ?w2 = tick w"
    by (simp_all add: sheet_call_simps print_simps)
  note rows = sync_members_rows(1)[OF assms(1,2)]
  from assms(1,2) show ?thesis
  proof (cases rule: sync_members_cases)
    case (read_failed e)
    then have "sheet_rows w' = sheet_rows w" by (simp add: w2)
    then have "appended w w' = []" by (simp add: appended_def)
    with assms(3) show ?thesis by simp
  next
    case (append_failed e)
    have "sheet_rows w' = sheet_rows ?w2 @ appended w w'" using rows by (simp add: w2)
    from sync_loop_content[OF append_failed(3) this assms(3)] show ?thesis by (simp add: w2)
  next
    case (completed k w3)
    have "sheet_rows w' = sheet_rows w3" by (simp add: completed(4) write_log_frame print_simps)
    then have "sheet_rows w3 = sheet_rows ?w2 @ appended w w'" using rows by (simp add: w2)
    from sync_loop_content[OF completed(3) this assms(3)] show ?thesis by (simp add: w2)
  qed
qed

subsection \<open>An append that raises\<close>


subsection \<open>The bound of the log\<close>



section \<open>The claims\<close>



text \<open>
  Claim C2. In any run of \<^verbatim>\<open>sync_members\<close>, however it ends, and for any member: when
  the member's identity string is in column 3 of a row of the worksheet before the run,
  no appended row has it in column 3; and in every case at most one appended row has it,
  however often the identity occurs in the roster.
\<close>

theorem sync_members_no_duplicates:
  assumes "sync_members gid w = (out, w')"
  shows "sheet_rows w' = sheet_rows w @ appended w w' \<and>
         (uid_of m \<in> cell 3 ` set (sheet_rows w) \<longrightarrow>
            filter (\<lambda>r. cell 3 r = uid_of m) (appended w w') = []) \<and>
         length (filter (\<lambda>r. cell 3 r = uid_of m) (appended w w')) \<le> 1"
proof -
  note rows = sync_members_rows_any[OF assms]
  have "filter (\<lambda>r. cell 3 r = uid_of m) (appended w w') = []"
    if "uid_of m \<in> cell 3 ` set (sheet_rows w)"
    using that rows(3) by (auto simp add: filter_empty_conv)
  then show ?thesis
    using rows(1) count_le_one[OF rows(2), of "uid_of m"] by blast
qed

theorem sync_members_no_duplicates_witness:
  "uid_of alice \<in> cell 3 ` set (sheet_rows (example_world [alice, bob, alice, bob] [alice_row])) \<and>
   sheet_rows (snd (sync_members 42 (example_world [alice, bob, alice, bob] [alice_row]))) =
     [alice_row, [''Bob'', ''bob'', ''2'', ''a2.png'', ''2024-03-09 07:05:00'']] \<and>
   filter (\<lambda>r. cell 3 r = uid_of alice)
     (appended (example_world [alice, bob, alice, bob] [alice_row])
        (snd (sync_members 42 (example_world [alice, bob, alice, bob] [alice_row])))) = [] \<and>
   length (filter (\<lambda>r. cell 3 r = uid_of bob)
     (appended (example_world [alice, bob, alice, bob] [alice_row])
        (snd (sync_members 42 (example_world [alice, bob, alice, bob] [alice_row]))))) \<le> 1"
proof -
  let ?w = "example_world [alice, bob, alice, bob] [alice_row]"
  have run: "sync_members 42 ?w = (fst (sync_members 42 ?w), snd (sync_members 42 ?w))"
    by simp
  have old: "uid_of alice \<in> cell 3 ` set (sheet_rows ?w)"
    by (simp add: uid_of_def run_defs example_defs)
  have rows: "sheet_rows (snd (sync_members 42 ?w)) =
     [alice_row, [''Bob'', ''bob'', ''2'', ''a2.png'', ''2024-03-09 07:05:00'']]"
    by (simp add: run_defs example_defs)
  from sync_members_no_duplicates[OF run, of alice] sync_members_no_duplicates[OF run, of bob] old rows
  show ?thesis by simp
qed

text \<open>
  Claim C3. After a run of \<^verbatim>\<open>sync_members\<close> that returned normally, a second run on the
  world the first one left (same roster, worksheet untouched in between) appends no row,
  however the second run ends. Each run reads column 3 of the worksheet anew:
  nothing of the identity set is carried from one run to the next.
\<close>

theorem sync_members_idempotent:
  assumes "sync_members gid w = (Returned, w1)"
  shows "sheet_rows (snd (sync_members gid w1)) = sheet_rows w1 \<and>
         appended w1 (snd (sync_members gid w1)) = []"
proof (cases "guilds w gid")
  case None
  have "guilds w1 = guilds w" using sync_members_guilds[of gid w] assms by simp
  with None have "guilds w1 gid = None" by simp
  then show ?thesis by (simp add: sync_members_def print_simps appended_def)
next
  case (Some g)
  have g1: "guilds w1 gid = Some g" using sync_members_guilds[of gid w] assms Some by simp
  obtain out w2 where run2: "sync_members gid w1 = (out, w2)" by (cases "sync_members gid w1")
  note first = sync_members_rows[OF Some assms]
  note second = sync_members_rows[OF g1 run2]
  have known: "uid_of ` set (members g) \<subseteq> cell 3 ` set (sheet_rows w1)"
    using first(5) by (subst first(1)) auto
  have "appended w1 w2 = []"
  proof (rule ccontr)
    assume "appended w1 w2 \<noteq> []"
    then obtain r where r: "r \<in> set (appended w1 w2)" by (cases "appended w1 w2") auto
    then have "cell 3 r \<in> uid_of ` set (members g)" using second(4) by (rule_tac subsetD) auto
    then have "cell 3 r \<in> cell 3 ` set (sheet_rows w1)" using known by (rule_tac subsetD)
    moreover have "cell 3 r \<in> cell 3 ` set (appended w1 w2)" using r by (rule imageI)
    ultimately have "cell 3 r \<in> cell 3 ` set (appended w1 w2) \<inter> cell 3 ` set (sheet_rows w1)"
      by (rule_tac IntI)
    then show False unfolding second(3) by simp
  qed
  with second(1) show ?thesis by (simp add: run2)
qed

theorem sync_members_idempotent_witness:
  "fst (sync_members 42 (example_world [alice, bob] [])) = Returned \<and>
   length (sheet_rows (snd (sync_members 42 (example_world [alice, bob] [])))) = 2 \<and>
   sheet_rows (snd (sync_members 42 (snd (sync_members 42 (example_world [alice, bob] []))))) =
     sheet_rows (snd (sync_members 42 (example_world [alice, bob] []))) \<and>
   appended (snd (sync_members 42 (example_world [alice, bob] [])))
     (snd (sync_members 42 (snd (sync_members 42 (example_world [alice, bob] []))))) = []"
proof -
  let ?w = "example_world [alice, bob] []"
  have ret: "fst (sync_members 42 ?w) = Returned" by (simp add: run_defs example_defs)
  then have run: "sync_members 42 ?w = (Returned, snd (sync_members 42 ?w))"
    by (simp add: prod_eq_iff)
  have len: "length (sheet_rows (snd (sync_members 42 ?w))) = 2" by (simp add: run_defs example_defs)
  from sync_members_idempotent[OF run] ret len show ?thesis by simp
qed








text \<open>
  Claim C8. The \<open>i\<close>-th row a run of \<^verbatim>\<open>sync_members\<close> appends is, for a member of the
  resolved guild's roster, the list of its display name, its name, its identity string,
  its avatar URL and the formatted \<open>i\<close>-th reading of the UTC clock in that run. The
  identity is the cell of column 3, the column that \<^verbatim>\<open>col_values(3)\<close> reads: it is among
  the values of that column after the run. When the clock reading is a datetime with a
  four-digit year, the fifth cell has the shape \<^verbatim>\<open>YYYY-MM-DD HH:MM:SS\<close>.
\<close>

theorem appended_row_shape:
  assumes "sync_members gid w = (out, w')" and "i < length (appended w w')"
  shows "\<exists>g m. guilds w gid = Some g \<and> m \<in> set (members g) \<and>
           appended w w' ! i =
             [display_name m, name m, str_int (member_id m), display_avatar_url m,
              strftime (clock w (tick w + i))] \<and>
           cell 3 (appended w w' ! i) = str_int (member_id m) \<and>
           str_int (member_id m) \<in> set (column 3 (sheet_rows w')) \<and>
           (valid_datetime (clock w (tick w + i)) \<and> 1000 \<le> year (clock w (tick w + i)) \<longrightarrow>
              timestamp_format (cell 5 (appended w w' ! i)))"
proof (cases "guilds w gid")
  case None
  with assms(1) have "sheet_rows w' = sheet_rows w"
    by (auto simp add: sync_members_def print_simps)
  then have "appended w w' = []" by (simp add: appended_def)
  with assms(2) show ?thesis by simp
next
  case (Some g)
  from sync_members_content[OF Some assms] obtain m where m: "m \<in> set (members g)"
    and row: "appended w w' ! i =
           [display_name m, name m, uid_of m, display_avatar_url m, strftime (clock w (tick w + i))]"
    by blast
  have c3: "cell 3 (appended w w' ! i) = uid_of m" by (simp add: row cell_def)
  have c5: "cell 5 (appended w w' ! i) = strftime (clock w (tick w + i))" by (simp add: row cell_def)
  have "appended w w' ! i \<in> set (appended w w')" using assms(2) by simp
  then have "appended w w' ! i \<in> set (sheet_rows w')"
    using sync_members_rows(1)[OF Some assms(1)] by (metis Un_iff set_append)
  then have "uid_of m \<in> cell 3 ` set (sheet_rows w')" using c3 by (metis imageI)
  then have col: "uid_of m \<in> set (column 3 (sheet_rows w'))" by (simp add: uid_in_column)
  have fmt: "timestamp_format (cell 5 (appended w w' ! i))"
    if "valid_datetime (clock w (tick w + i))" "1000 \<le> year (clock w (tick w + i))"
    unfolding c5 using that by (rule strftime_format)
  show ?thesis
    using Some m row c3 col fmt unfolding uid_of_def by blast
qed

theorem appended_row_shape_witness:
  "1 < length (appended (example_world [alice, bob, carol] [alice_row])
                 (snd (sync_members 42 (example_world [alice, bob, carol] [alice_row])))) \<and>
   valid_datetime (example_clock 1) \<and> 1000 \<le> year (example_clock 1) \<and>
   appended (example_world [alice, bob, carol] [alice_row])
     (snd (sync_members 42 (example_world [alice, bob, carol] [alice_row]))) ! 1 =
     [''Carol'', ''carol'', ''3'', ''a3.png'', ''2024-03-09 07:05:01''] \<and>
   timestamp_format (cell 5 (appended (example_world [alice, bob, carol] [alice_row])
     (snd (sync_members 42 (example_world [alice, bob, carol] [alice_row]))) ! 1)) \<and>
   (\<exists>g m. guilds (example_world [alice, bob, carol] [alice_row]) 42 = Some g \<and> m \<in> set (members g) \<and>
      cell 3 (appended (example_world [alice, bob, carol] [alice_row])
     (snd (sync_members 42 (example_world [alice, bob, carol] [alice_row]))) ! 1) = str_int (member_id m))"
proof -
  let ?w = "example_world [alice, bob, carol] [alice_row]"
  let ?w' = "snd (sync_members 42 ?w)"
  have run: "sync_members 42 ?w = (fst (sync_members 42 ?w), ?w')" by simp
  have rows: "sheet_rows ?w' = [alice_row, [''Bob'', ''bob'', ''2'', ''a2.png'', ''2024-03-09 07:05:00''],
     [''Carol'', ''carol'', ''3'', ''a3.png'', ''2024-03-09 07:05:01'']]"
    by (simp add: run_defs example_defs)
  have app: "appended ?w ?w' = [[''Bob'', ''bob'', ''2'', ''a2.png'', ''2024-03-09 07:05:00''],
     [''Carol'', ''carol'', ''3'', ''a3.png'', ''2024-03-09 07:05:01'']]"
    unfolding appended_def rows by (simp add: example_world_def)
  have len: "1 < length (appended ?w ?w')" unfolding app by simp
  have v: "valid_datetime (example_clock 1)" "1000 \<le> year (example_clock 1)"
    by (simp_all add: valid_datetime_def example_clock_def)
  have ck: "clock ?w (tick ?w + 1) = example_clock 1" by (simp add: example_world_def)
  from appended_row_shape[OF run len] v show ?thesis
    unfolding ck using len app by auto
qed





end
